theory Spec2Isabelle
  imports Main "HOL-Library.Finite_Map"
begin

section \<open>Values of the host channel\<close>

text \<open>
  The widget reads \<^verbatim>\<open>toolOutput\<close> and \<^verbatim>\<open>widgetState\<close> from the host and writes the
  cart back. These are structured (JSON) values. An object is a finite map from
  property names to values, so that a property name occurs at most once, as in
  JavaScript. \<^verbatim>\<open>null\<close> and \<^verbatim>\<open>undefined\<close> are both \<open>JNull\<close> where they stand for a whole
  value; a property that is absent reads as \<open>None\<close>. A number is an integer (the
  quantities of the cart); JavaScript holds it as a double, so arithmetic on it is the
  integers' only inside the safe range, see \<open>safe_integer\<close> below. A document is a
  tree: every array and every object that occurs in it is an object of its own, shared
  with no other place of that document or of another one.
\<close>

datatype jval =
    JNull
  | JBool bool
  | JNum int
  | JStr string
  | JArr "jval list"
  | JObj "(string, jval) fmap"

type_synonym obj = "(string, jval) fmap"

text \<open>JavaScript truthiness, as tested by \<^verbatim>\<open>if (item?.name)\<close>.\<close>

fun truthy :: "jval \<Rightarrow> bool" where
  "truthy JNull = False"
| "truthy (JBool b) = b"
| "truthy (JNum n) = (n \<noteq> 0)"
| "truthy (JStr s) = (s \<noteq> [])"
| "truthy (JArr xs) = True"
| "truthy (JObj f) = True"

text \<open>
  Reading one of the properties the program reads (\<^verbatim>\<open>name\<close>, \<^verbatim>\<open>quantity\<close>,
  \<^verbatim>\<open>items\<close>): an object answers with its own field; \<^verbatim>\<open>null\<close> (under \<^verbatim>\<open>?.\<close>), a
  number, a boolean, a string and an array carry none of these three.
\<close>

fun get_prop :: "jval \<Rightarrow> string \<Rightarrow> jval option" where
  "get_prop (JObj f) k = fmlookup f k"
| "get_prop JNull k = None"
| "get_prop (JBool b) k = None"
| "get_prop (JNum n) k = None"
| "get_prop (JStr s) k = None"
| "get_prop (JArr xs) k = None"

text \<open>\<^verbatim>\<open>Array.isArray(v) ? v : []\<close>, for a property that may be absent.\<close>

fun array_or_empty :: "jval option \<Rightarrow> jval list" where
  "array_or_empty (Some (JArr xs)) = xs"
| "array_or_empty v = []"

text \<open>Decimal numerals, the property names of the indices of a string or an array.\<close>

fun digit_char :: "nat \<Rightarrow> char" where
  "digit_char n = char_of (48 + n)"

fun decimal :: "nat \<Rightarrow> string" where
  "decimal n = (if n < 10 then [digit_char n]
                else decimal (n div 10) @ [digit_char (n mod 10)])"

definition indexed :: "jval list \<Rightarrow> (string \<times> jval) list" where
  "indexed xs = zip (map decimal [0..<length xs]) xs"

text \<open>
  Object spread \<^verbatim>\<open>{...v}\<close>: the own enumerable properties of \<open>v\<close>. An object gives
  its fields, a string its characters and an array its elements under their indices,
  and \<^verbatim>\<open>null\<close>, \<^verbatim>\<open>undefined\<close>, numbers and booleans give nothing.
\<close>

fun spread :: "jval \<Rightarrow> obj" where
  "spread (JObj f) = f"
| "spread (JStr s) = fmap_of_list (indexed (map (\<lambda>c. JStr [c]) s))"
| "spread (JArr xs) = fmap_of_list (indexed xs)"
| "spread JNull = fmempty"
| "spread (JBool b) = fmempty"
| "spread (JNum n) = fmempty"

text \<open>\<^verbatim>\<open>{...itemsByName.get(k)}\<close>, where the lookup may answer \<^verbatim>\<open>undefined\<close>.\<close>

fun spread_opt :: "jval option \<Rightarrow> obj" where
  "spread_opt None = fmempty"
| "spread_opt (Some v) = spread v"

text \<open>\<^verbatim>\<open>a ?? b\<close> on whole values.\<close>

definition nullish_or :: "jval \<Rightarrow> jval \<Rightarrow> jval" where
  "nullish_or a b = (if a = JNull then b else a)"

definition createDefaultCartState :: jval where
  "createDefaultCartState = JObj (fmap_of_list [(''items'', JArr [])])"

section \<open>The name-keyed map of the merge\<close>

text \<open>
  \<^verbatim>\<open>new Map<string, CartItem>()\<close>: an association list in insertion order.
  \<^verbatim>\<open>set\<close> on a key that is present replaces the value where it stands and on a new key
  appends; \<^verbatim>\<open>get\<close> answers the value of a key that is present; \<^verbatim>\<open>values()\<close> lists the
  values in insertion order. Keys are the \<^verbatim>\<open>name\<close> values.

  \<^verbatim>\<open>Map\<close> compares keys as JavaScript does: strings, numbers, booleans and \<^verbatim>\<open>null\<close> by
  content, arrays and objects by reference. Each loop hands every item's \<^verbatim>\<open>name\<close> to the
  map once, and a name that is an array or an object is an object of its own (documents
  are trees), so it is the same as no key that is in the map already.
\<close>

type_synonym jsmap = "(jval \<times> jval) list"

fun is_ref :: "jval \<Rightarrow> bool" where
  "is_ref (JArr xs) = True"
| "is_ref (JObj f) = True"
| "is_ref JNull = False"
| "is_ref (JBool b) = False"
| "is_ref (JNum n) = False"
| "is_ref (JStr s) = False"

definition same_key :: "jval \<Rightarrow> jval \<Rightarrow> bool" where
  "same_key stored k = (\<not> is_ref k \<and> stored = k)"

fun map_set :: "jval \<Rightarrow> jval \<Rightarrow> jsmap \<Rightarrow> jsmap" where
  "map_set k v [] = [(k, v)]"
| "map_set k v (p # ps) =
     (if same_key (fst p) k then (k, v) # ps else p # map_set k v ps)"

fun map_get :: "jsmap \<Rightarrow> jval \<Rightarrow> jval option" where
  "map_get [] k = None"
| "map_get (p # ps) k = (if same_key (fst p) k then Some (snd p) else map_get ps k)"

definition map_values :: "jsmap \<Rightarrow> jval list" where
  "map_values m = map snd m"

text \<open>
  The guard \<^verbatim>\<open>if (item?.name)\<close> together with the key \<^verbatim>\<open>item.name\<close> it lets through:
  \<open>Some\<close> of the name when it is truthy, \<open>None\<close> when the item is skipped.
\<close>

definition name_key :: "jval \<Rightarrow> jval option" where
  "name_key item =
     (case get_prop item ''name'' of
        None \<Rightarrow> None
      | Some n \<Rightarrow> if truthy n then Some n else None)"

section \<open>The delta merge of the \<^verbatim>\<open>toolOutput\<close> effect\<close>

text \<open>
  \<^verbatim>\<open>for (const item of baseItems) if (item?.name) itemsByName.set(item.name, item)\<close>
\<close>

definition seed_step :: "jval \<Rightarrow> jsmap \<Rightarrow> jsmap" where
  "seed_step item itemsByName =
     (case name_key item of
        None \<Rightarrow> itemsByName
      | Some n \<Rightarrow> map_set n item itemsByName)"

text \<open>
  \<^verbatim>\<open>for (const item of incomingItems) if (item?.name)
      itemsByName.set(item.name, { ...itemsByName.get(item.name), ...item })\<close>
\<close>

definition merge_step :: "jval \<Rightarrow> jsmap \<Rightarrow> jsmap" where
  "merge_step item itemsByName =
     (case name_key item of
        None \<Rightarrow> itemsByName
      | Some n \<Rightarrow>
          map_set n (JObj (fmadd (spread_opt (map_get itemsByName n)) (spread item)))
            itemsByName)"

text \<open>
  Lines 134 to 151 of the effect: the base is \<^verbatim>\<open>widgetState ?? createDefaultCartState()\<close>,
  the two loops fill the map, and the next state is
  \<^verbatim>\<open>{ ...baseState, items: Array.from(itemsByName.values()) }\<close>.
\<close>

definition reconcile :: "jval \<Rightarrow> jval list \<Rightarrow> jval" where
  "reconcile widgetState incomingItems =
     (let baseState = nullish_or widgetState createDefaultCartState;
          baseItems = array_or_empty (get_prop baseState ''items'');
          itemsByName = fold merge_step incomingItems (fold seed_step baseItems []);
          nextItems = map_values itemsByName
      in JObj (fmupd ''items'' (JArr nextItems) (spread baseState)))"

text \<open>Lines 125 to 129: the incoming items are the \<^verbatim>\<open>items\<close> of the tool output when that is an array.\<close>

definition incomingItems :: "jval \<Rightarrow> jval list" where
  "incomingItems toolOutput = array_or_empty (get_prop toolOutput ''items'')"

section \<open>The change-detection guard of the effect\<close>





section \<open>The quantity adjuster\<close>

text \<open>
  JavaScript numbers are doubles. Integers from \<open>-(2^53 - 1)\<close> to \<open>2^53 - 1\<close>
  (\<^verbatim>\<open>Number.MIN_SAFE_INTEGER\<close> to \<^verbatim>\<open>Number.MAX_SAFE_INTEGER\<close>) are held exactly, and the
  sum of two of them is the integers' sum when that sum is in the range as well.
  Beyond it a sum is rounded.
\<close>

definition MAX_SAFE_INTEGER :: int where
  "MAX_SAFE_INTEGER = 9007199254740991"

definition safe_integer :: "int \<Rightarrow> bool" where
  "safe_integer n = (- MAX_SAFE_INTEGER \<le> n \<and> n \<le> MAX_SAFE_INTEGER)"

text \<open>
  \<^verbatim>\<open>Math.max(0, a + delta)\<close> for a numeric \<open>a\<close> read from the quantity \<open>v\<close>: the
  integers' result when \<open>a\<close>, \<open>delta\<close> and their sum are safe integers. Otherwise the
  sum is the platform's rounded one, which is left to the parameter \<open>coerce\<close>.
\<close>

definition max0_plus :: "(jval \<Rightarrow> int \<Rightarrow> jval) \<Rightarrow> jval \<Rightarrow> int \<Rightarrow> int \<Rightarrow> jval" where
  "max0_plus coerce v a delta =
     (if safe_integer a \<and> safe_integer delta \<and> safe_integer (a + delta)
      then JNum (max 0 (a + delta))
      else coerce v delta)"

text \<open>
  \<^verbatim>\<open>Math.max(0, (current.quantity ?? 0) + delta)\<close>. An absent or \<^verbatim>\<open>null\<close> quantity
  counts as 0, a number is added to, and a boolean is added as 0 or 1. On a string, an
  array or an object \<^verbatim>\<open>+\<close> concatenates text and \<^verbatim>\<open>Math.max\<close> then reads the text back
  as a number. The parameter \<open>coerce\<close> stands for what the platform answers wherever
  the result is not the integers': \<open>coerce v delta\<close> is \<^verbatim>\<open>Math.max(0, (v ?? 0) + delta)\<close>
  for such a quantity \<open>v\<close>.
\<close>

definition nextQuantity :: "(jval \<Rightarrow> int \<Rightarrow> jval) \<Rightarrow> obj \<Rightarrow> int \<Rightarrow> jval" where
  "nextQuantity coerce current delta =
     (case fmlookup current ''quantity'' of
        None \<Rightarrow> max0_plus coerce JNull 0 delta
      | Some JNull \<Rightarrow> max0_plus coerce JNull 0 delta
      | Some (JNum q) \<Rightarrow> max0_plus coerce (JNum q) q delta
      | Some (JBool b) \<Rightarrow> max0_plus coerce (JBool b) (if b then 1 else 0) delta
      | Some v \<Rightarrow> coerce v delta)"

text \<open>\<^verbatim>\<open>findIndex\<close>: the first index whose element satisfies the test, \<open>None\<close> for -1.\<close>

fun findIndex :: "('a \<Rightarrow> bool) \<Rightarrow> 'a list \<Rightarrow> nat option" where
  "findIndex P [] = None"
| "findIndex P (x # xs) = (if P x then Some 0 else map_option Suc (findIndex P xs))"

text \<open>
  \<^verbatim>\<open>adjustQuantity(name, delta)\<close> as the cart state after the call, from the state
  before it. The early return leaves the state alone; otherwise the updater passed to
  \<^verbatim>\<open>setCartState\<close> runs on the previous state. The index read by \<^verbatim>\<open>items[idx]\<close> is one
  that \<open>findIndex\<close> has found, so it is in range.
\<close>

definition adjustQuantity :: "(jval \<Rightarrow> int \<Rightarrow> jval) \<Rightarrow> string \<Rightarrow> int \<Rightarrow> jval \<Rightarrow> jval" where
  "adjustQuantity coerce name delta prevState =
     (if name = [] \<or> delta = 0 then prevState
      else
        let baseState = nullish_or prevState (JObj fmempty);
            items = map spread (array_or_empty (get_prop baseState ''items''))
        in case findIndex (\<lambda>item. fmlookup item ''name'' = Some (JStr name)) items of
             None \<Rightarrow> baseState
           | Some idx \<Rightarrow>
               let current = items ! idx;
                   nextQ = nextQuantity coerce current delta;
                   items' = (if nextQ = JNum 0
                             then take idx items @ drop (Suc idx) items
                             else items[idx := fmupd ''quantity'' nextQ current])
               in JObj (fmupd ''items'' (JArr (map JObj items')) (spread baseState)))"

section \<open>Notions used to state the properties\<close>

text \<open>The items of a cart: its \<^verbatim>\<open>items\<close> when that is an array, no items otherwise.\<close>

definition cart_items :: "jval \<Rightarrow> jval list" where
  "cart_items cart = array_or_empty (get_prop cart ''items'')"

text \<open>The non-empty names carried by a list of items, in order.\<close>

fun item_names :: "jval list \<Rightarrow> jval list" where
  "item_names [] = []"
| "item_names (x # xs) =
     (case name_key x of
        None \<Rightarrow> item_names xs
      | Some n \<Rightarrow> n # item_names xs)"

text \<open>
  Every name carried by the list is a string, a number or a boolean: none is an array
  or an object. The declared type of \<^verbatim>\<open>name\<close> is \<^verbatim>\<open>string\<close>.
\<close>

definition plain_names :: "jval list \<Rightarrow> bool" where
  "plain_names xs = list_all (\<lambda>n. \<not> is_ref n) (item_names xs)"

text \<open>The items of a list that carry the name \<open>n\<close>.\<close>

definition named :: "jval \<Rightarrow> jval list \<Rightarrow> jval list" where
  "named n xs = filter (\<lambda>x. name_key x = Some n) xs"

text \<open>A list without its repetitions, each element where it first occurs.\<close>

fun first_seen_from :: "'a list \<Rightarrow> 'a list \<Rightarrow> 'a list" where
  "first_seen_from seen [] = []"
| "first_seen_from seen (x # xs) =
     (if x \<in> set seen then first_seen_from seen xs
      else x # first_seen_from (x # seen) xs)"

definition first_seen :: "'a list \<Rightarrow> 'a list" where
  "first_seen xs = first_seen_from [] xs"

text \<open>The field-wise merge of records from left to right, later records overriding.\<close>

definition merge_all :: "obj \<Rightarrow> obj list \<Rightarrow> obj" where
  "merge_all seed ds = foldl fmadd seed ds"

text \<open>The last element of a list, if any.\<close>

fun last_opt :: "'a list \<Rightarrow> 'a option" where
  "last_opt [] = None"
| "last_opt (x # xs) = (case last_opt xs of None \<Rightarrow> Some x | Some y \<Rightarrow> Some y)"

text \<open>An item whose \<^verbatim>\<open>quantity\<close> is the number 0.\<close>

definition zero_quantity :: "jval \<Rightarrow> bool" where
  "zero_quantity item = (get_prop item ''quantity'' = Some (JNum 0))"

text \<open>\<^verbatim>\<open>({ ...item })\<close>, the shallow copy \<^verbatim>\<open>adjustQuantity\<close> makes of every item.\<close>

definition copy_item :: "jval \<Rightarrow> jval" where
  "copy_item item = JObj (spread item)"

text \<open>\<^verbatim>\<open>item.name === name\<close> for the string \<open>name\<close>.\<close>

definition has_name :: "string \<Rightarrow> jval \<Rightarrow> bool" where
  "has_name name item = (get_prop item ''name'' = Some (JStr name))"

text \<open>Every item of the list carries a non-empty name.\<close>

definition all_named :: "jval list \<Rightarrow> bool" where
  "all_named xs = list_all (\<lambda>x. name_key x \<noteq> None) xs"

text \<open>No item of the list has quantity 0.\<close>

definition no_zero :: "jval list \<Rightarrow> bool" where
  "no_zero xs = list_all (\<lambda>x. \<not> zero_quantity x) xs"

text \<open>
  Two properties of the map that the loops keep: every entry is filed under the name
  its value carries (they only ever store an item under its own \<^verbatim>\<open>name\<close>), and no
  value has quantity 0.
\<close>

definition keyed :: "jsmap \<Rightarrow> bool" where
  "keyed m = list_all (\<lambda>p. name_key (snd p) = Some (fst p)) m"

definition values_no_zero :: "jsmap \<Rightarrow> bool" where
  "values_no_zero m = list_all (\<lambda>p. \<not> zero_quantity (snd p)) m"

section \<open>Example carts and deltas\<close>

definition milk_cart :: jval where
  "milk_cart = JObj (fmap_of_list
     [(''cartId'', JStr ''c1''),
      (''items'', JArr [JObj (fmap_of_list [(''name'', JStr ''milk''), (''quantity'', JNum 2)])])])"

definition milk_bread_delta :: "jval list" where
  "milk_bread_delta =
     [JObj (fmap_of_list [(''name'', JStr ''milk''), (''quantity'', JNum 5)]),
      JObj (fmap_of_list [(''name'', JStr ''bread''), (''quantity'', JNum 1)])]"


definition red_x :: obj where
  "red_x = fmap_of_list [(''name'', JStr ''x''), (''qty'', JNum 1), (''color'', JStr ''red'')]"

definition x_three :: obj where
  "x_three = fmap_of_list [(''name'', JStr ''x''), (''qty'', JNum 3)]"

definition x_note :: obj where
  "x_note = fmap_of_list [(''name'', JStr ''x''), (''note'', JStr ''gift'')]"

definition red_cart :: jval where
  "red_cart = JObj (fmap_of_list [(''items'', JArr [JObj red_x])])"

definition apple_item :: obj where
  "apple_item = fmap_of_list [(''name'', JStr ''apple''), (''quantity'', JNum 1)]"

definition apple_cart_fields :: obj where
  "apple_cart_fields = fmap_of_list [(''items'', JArr [JObj apple_item])]"

definition pear_item :: obj where
  "pear_item = fmap_of_list [(''name'', JStr ''pear'')]"

definition pear_cart_fields :: obj where
  "pear_cart_fields = fmap_of_list [(''items'', JArr [JObj pear_item])]"

definition id_named_item :: jval where
  "id_named_item =
     JObj (fmap_of_list
       [(''name'', JObj (fmap_of_list [(''id'', JNum 1)])), (''quantity'', JNum 1)])"

definition no_items_cart :: jval where
  "no_items_cart = JObj (fmap_of_list [(''cartId'', JStr ''c1'')])"

definition unnamed_item_cart :: jval where
  "unnamed_item_cart =
     JObj (fmap_of_list [(''items'', JArr [JObj (fmap_of_list [(''name'', JStr ''''), (''quantity'', JNum 2)])])])"

definition quantity_only :: jval where
  "quantity_only = JObj (fmap_of_list [(''quantity'', JNum 5)])"

definition zero_x :: jval where
  "zero_x = JObj (fmap_of_list [(''name'', JStr ''x''), (''quantity'', JNum 0)])"


definition no_coercion :: "jval \<Rightarrow> int \<Rightarrow> jval" where
  "no_coercion v delta = JNull"

section \<open>The map: keys and lookups after \<^verbatim>\<open>set\<close>\<close>

lemma same_key_plain: "\<not> is_ref k \<Longrightarrow> same_key stored k = (stored = k)"
  by (simp add: same_key_def)

lemma same_key_eq: "same_key stored k \<Longrightarrow> stored = k"
  by (simp add: same_key_def)

lemma map_set_keys:
  "\<not> is_ref k \<Longrightarrow>
   map fst (map_set k v m) = (if k \<in> set (map fst m) then map fst m else map fst m @ [k])"
  by (induction m) (auto simp: same_key_plain)

lemma map_set_distinct:
  "\<not> is_ref k \<Longrightarrow> distinct (map fst m) \<Longrightarrow> distinct (map fst (map_set k v m))"
  by (simp add: map_set_keys)

lemma map_of_map_set:
  "\<not> is_ref k \<Longrightarrow> map_of (map_set k v m) k' = (if k' = k then Some v else map_of m k')"
  by (induction m) (auto simp: same_key_plain)

lemma map_get_plain: "\<not> is_ref k \<Longrightarrow> map_get m k = map_of m k"
  by (induction m) (auto simp: same_key_plain)

lemma map_set_fresh: "k \<notin> set (map fst m) \<Longrightarrow> map_set k v m = m @ [(k, v)]"
  by (induction m) (auto dest: same_key_eq)

lemma plain_names_Nil: "plain_names []"
  by (simp add: plain_names_def)

lemma plain_names_Cons:
  "plain_names (x # xs) =
     ((case name_key x of None \<Rightarrow> True | Some n \<Rightarrow> \<not> is_ref n) \<and> plain_names xs)"
  by (simp add: plain_names_def split: option.splits)

section \<open>First occurrences\<close>

lemma first_seen_from_filter:
  "first_seen_from (s1 @ s2) xs = first_seen_from s1 (filter (\<lambda>x. x \<notin> set s2) xs)"
proof (induction xs arbitrary: s1)
  case Nil
  show ?case by simp
next
  case (Cons x xs)
  note ih1 = Cons.IH[of s1] and ih2 = Cons.IH[of "x # s1"]
  show ?case
  proof (cases "x \<in> set s1")
    case True
    then show ?thesis using ih1 by simp
  next
    case False
    show ?thesis
    proof (cases "x \<in> set s2")
      case True
      then show ?thesis using ih1 False by simp
    next
      case nin: False
      then show ?thesis using ih2 False by simp
    qed
  qed
qed

lemma first_seen_from_cong:
  assumes "set seen = set seen'"
  shows "first_seen_from seen xs = first_seen_from seen' xs"
proof -
  have "first_seen_from seen xs = first_seen_from [] (filter (\<lambda>x. x \<notin> set seen) xs)"
    using first_seen_from_filter[of "[]" seen xs] by simp
  also have "\<dots> = first_seen_from [] (filter (\<lambda>x. x \<notin> set seen') xs)"
    by (simp only: assms)
  also have "\<dots> = first_seen_from seen' xs"
    using first_seen_from_filter[of "[]" seen' xs] by simp
  finally show ?thesis .
qed

lemma first_seen_from_append:
  "first_seen_from seen (xs @ ys) = first_seen_from seen xs @ first_seen_from (xs @ seen) ys"
proof (induction xs arbitrary: seen)
  case Nil
  show ?case by simp
next
  case (Cons x xs)
  show ?case
  proof (cases "x \<in> set seen")
    case True
    have "first_seen_from (xs @ seen) ys = first_seen_from ((x # xs) @ seen) ys"
      by (rule first_seen_from_cong) (use True in auto)
    then show ?thesis using True Cons.IH[of seen] by simp
  next
    case False
    have "first_seen_from (xs @ x # seen) ys = first_seen_from ((x # xs) @ seen) ys"
      by (rule first_seen_from_cong) auto
    then show ?thesis using False Cons.IH[of "x # seen"] by simp
  qed
qed

lemma first_seen_from_subset: "set xs \<subseteq> set seen \<Longrightarrow> first_seen_from seen xs = []"
  by (induction xs) auto

lemma first_seen_from_set: "set (first_seen_from seen xs) = set xs - set seen"
  by (induction xs arbitrary: seen) auto

lemma first_seen_from_distinct: "distinct (first_seen_from seen xs)"
  by (induction xs arbitrary: seen) (auto simp: first_seen_from_set)

lemma first_seen_distinct_id: "distinct xs \<Longrightarrow> set xs \<inter> set seen = {} \<Longrightarrow> first_seen_from seen xs = xs"
  by (induction xs arbitrary: seen) auto

lemma first_seen_append:
  "first_seen (xs @ ys) = first_seen xs @ first_seen (filter (\<lambda>y. y \<notin> set xs) ys)"
  unfolding first_seen_def
  using first_seen_from_append[of "[]" xs ys] first_seen_from_filter[of "[]" xs ys]
  by simp

section \<open>The keys of the map after the two loops\<close>

lemma item_names_append: "item_names (xs @ ys) = item_names xs @ item_names ys"
  by (induction xs) (simp_all split: option.splits)

lemma seed_step_keys:
  assumes "plain_names [x]"
  shows "map fst (seed_step x m) = map fst m @ first_seen_from (map fst m) (item_names [x])"
proof (cases "name_key x")
  case None
  then show ?thesis by (simp add: seed_step_def)
next
  case (Some n)
  then have pk: "\<not> is_ref n"
    using assms by (simp add: plain_names_Cons)
  show ?thesis using Some by (simp add: seed_step_def map_set_keys[OF pk])
qed

lemma merge_step_keys:
  assumes "plain_names [x]"
  shows "map fst (merge_step x m) = map fst m @ first_seen_from (map fst m) (item_names [x])"
proof (cases "name_key x")
  case None
  then show ?thesis by (simp add: merge_step_def)
next
  case (Some n)
  then have pk: "\<not> is_ref n"
    using assms by (simp add: plain_names_Cons)
  show ?thesis using Some by (simp add: merge_step_def map_set_keys[OF pk])
qed

lemma first_seen_from_step:
  "first_seen_from (ks @ first_seen_from ks [n]) ns = first_seen_from (n # ks) ns"
  by (rule first_seen_from_cong) auto

lemma first_seen_from_Cons:
  "first_seen_from ks [n] @ first_seen_from (n # ks) ns = first_seen_from ks (n # ns)"
proof (cases "n \<in> set ks")
  case True
  have "first_seen_from (n # ks) ns = first_seen_from ks ns"
    by (rule first_seen_from_cong) (use True in auto)
  then show ?thesis using True by simp
next
  case False
  then show ?thesis by simp
qed

lemma fold_seed_keys:
  "plain_names xs \<Longrightarrow>
   map fst (fold seed_step xs m) = map fst m @ first_seen_from (map fst m) (item_names xs)"
proof (induction xs arbitrary: m)
  case Nil
  show ?case by simp
next
  case (Cons x xs)
  have px: "plain_names [x]" and pxs: "plain_names xs"
    using Cons.prems by (simp_all add: plain_names_Cons plain_names_Nil)
  note ih = Cons.IH[OF pxs]
  show ?case
  proof (cases "name_key x")
    case None
    then show ?thesis using ih[of m] by (simp add: seed_step_def)
  next
    case (Some n)
    then have k: "map fst (seed_step x m) = map fst m @ first_seen_from (map fst m) [n]"
      using px by (simp add: seed_step_keys)
    have "map fst (fold seed_step (x # xs) m)
        = (map fst m @ first_seen_from (map fst m) [n])
          @ first_seen_from (map fst m @ first_seen_from (map fst m) [n]) (item_names xs)"
      using ih[of "seed_step x m"] k by simp
    also have "\<dots> = map fst m @ first_seen_from (map fst m) (n # item_names xs)"
      by (simp only: first_seen_from_step first_seen_from_Cons append_assoc)
    finally show ?thesis using Some by simp
  qed
qed

lemma fold_merge_keys:
  "plain_names xs \<Longrightarrow>
   map fst (fold merge_step xs m) = map fst m @ first_seen_from (map fst m) (item_names xs)"
proof (induction xs arbitrary: m)
  case Nil
  show ?case by simp
next
  case (Cons x xs)
  have px: "plain_names [x]" and pxs: "plain_names xs"
    using Cons.prems by (simp_all add: plain_names_Cons plain_names_Nil)
  note ih = Cons.IH[OF pxs]
  show ?case
  proof (cases "name_key x")
    case None
    then show ?thesis using ih[of m] by (simp add: merge_step_def)
  next
    case (Some n)
    then have k: "map fst (merge_step x m) = map fst m @ first_seen_from (map fst m) [n]"
      using px by (simp add: merge_step_keys)
    have "map fst (fold merge_step (x # xs) m)
        = (map fst m @ first_seen_from (map fst m) [n])
          @ first_seen_from (map fst m @ first_seen_from (map fst m) [n]) (item_names xs)"
      using ih[of "merge_step x m"] k by simp
    also have "\<dots> = map fst m @ first_seen_from (map fst m) (n # item_names xs)"
      by (simp only: first_seen_from_step first_seen_from_Cons append_assoc)
    finally show ?thesis using Some by simp
  qed
qed

section \<open>Entries stay filed under their own name\<close>

lemma keyed_Nil: "keyed []"
  by (simp add: keyed_def)

lemma keyed_map_set: "keyed m \<Longrightarrow> name_key v = Some k \<Longrightarrow> keyed (map_set k v m)"
  by (induction m) (auto simp: keyed_def)

lemma name_key_obj: "name_key x = Some n \<Longrightarrow> \<exists>f. x = JObj f \<and> fmlookup f ''name'' = Some n \<and> truthy n"
  by (cases x) (auto simp: name_key_def split: option.splits if_splits)

lemma name_key_merged:
  assumes "name_key x = Some n"
  shows "name_key (JObj (fmadd old (spread x))) = Some n"
proof -
  obtain f where f: "x = JObj f" "fmlookup f ''name'' = Some n" "truthy n"
    using name_key_obj[OF assms] by blast
  then have "fmlookup (fmadd old f) ''name'' = Some n"
    by (simp add: fmlookup_dom_iff)
  then show ?thesis using f by (simp add: name_key_def)
qed

lemma keyed_seed_step: "keyed m \<Longrightarrow> keyed (seed_step x m)"
  by (simp add: seed_step_def keyed_map_set split: option.splits)

lemma keyed_merge_step: "keyed m \<Longrightarrow> keyed (merge_step x m)"
  by (simp add: merge_step_def keyed_map_set name_key_merged split: option.splits)

lemma keyed_fold_seed: "keyed m \<Longrightarrow> keyed (fold seed_step xs m)"
  by (induction xs arbitrary: m) (simp_all add: keyed_seed_step)

lemma keyed_fold_merge: "keyed m \<Longrightarrow> keyed (fold merge_step xs m)"
  by (induction xs arbitrary: m) (simp_all add: keyed_merge_step)

lemma distinct_fold_seed:
  "plain_names xs \<Longrightarrow> distinct (map fst m) \<Longrightarrow> distinct (map fst (fold seed_step xs m))"
  by (auto simp: fold_seed_keys first_seen_from_distinct first_seen_from_set)

lemma distinct_fold_merge:
  "plain_names xs \<Longrightarrow> distinct (map fst m) \<Longrightarrow> distinct (map fst (fold merge_step xs m))"
  by (auto simp: fold_merge_keys first_seen_from_distinct first_seen_from_set)

section \<open>The values of the map after the two loops\<close>

lemma named_Cons:
  "named n (x # xs) = (if name_key x = Some n then x # named n xs else named n xs)"
  by (simp add: named_def)

lemma named_Nil: "named n [] = []"
  by (simp add: named_def)

lemma fold_seed_values:
  "plain_names xs \<Longrightarrow>
   map_of (fold seed_step xs m) n =
     (case last_opt (named n xs) of None \<Rightarrow> map_of m n | Some b \<Rightarrow> Some b)"
proof (induction xs arbitrary: m)
  case Nil
  show ?case by (simp add: named_Nil)
next
  case (Cons x xs)
  have pxs: "plain_names xs"
    using Cons.prems by (simp add: plain_names_Cons)
  note ih = Cons.IH[OF pxs]
  show ?case
  proof (cases "name_key x")
    case None
    then show ?thesis using ih[of m] by (simp add: seed_step_def named_Cons)
  next
    case (Some k)
    then have pk: "\<not> is_ref k"
      using Cons.prems by (simp add: plain_names_Cons)
    have s: "seed_step x m = map_set k x m" using Some by (simp add: seed_step_def)
    have step: "map_of (fold seed_step (x # xs) m) n
        = (case last_opt (named n xs) of None \<Rightarrow> map_of (map_set k x m) n | Some b \<Rightarrow> Some b)"
      using ih[of "map_set k x m"] s by simp
    have ms: "map_of (map_set k x m) n = (if n = k then Some x else map_of m n)"
      by (rule map_of_map_set[OF pk])
    have nm: "named n (x # xs) = (if n = k then x # named n xs else named n xs)"
      using Some by (auto simp: named_Cons)
    show ?thesis unfolding step ms nm by (simp split: option.splits)
  qed
qed

lemma merge_all_Cons: "merge_all s (d # ds) = merge_all (fmadd s d) ds"
  by (simp add: merge_all_def)

lemma merge_all_Nil: "merge_all s [] = s"
  by (simp add: merge_all_def)

lemma fold_merge_values:
  "plain_names ds \<Longrightarrow>
   map_of (fold merge_step ds m) n =
     (if named n ds = [] then map_of m n
      else Some (JObj (merge_all (spread_opt (map_of m n)) (map spread (named n ds)))))"
proof (induction ds arbitrary: m)
  case Nil
  show ?case by (simp add: named_Nil)
next
  case (Cons d ds)
  have pds: "plain_names ds"
    using Cons.prems by (simp add: plain_names_Cons)
  note ih = Cons.IH[OF pds]
  show ?case
  proof (cases "name_key d")
    case None
    then show ?thesis using ih[of m] by (simp add: merge_step_def named_Cons)
  next
    case (Some k)
    then have pk: "\<not> is_ref k"
      using Cons.prems by (simp add: plain_names_Cons)
    have s: "merge_step d m = map_set k (JObj (fmadd (spread_opt (map_of m k)) (spread d))) m"
      using Some by (simp add: merge_step_def map_get_plain[OF pk])
    let ?v = "JObj (fmadd (spread_opt (map_of m k)) (spread d))"
    have step: "map_of (fold merge_step (d # ds) m) n
        = (if named n ds = [] then map_of (map_set k ?v m) n
           else Some (JObj (merge_all (spread_opt (map_of (map_set k ?v m) n))
                              (map spread (named n ds)))))"
      using ih[of "map_set k ?v m"] s by simp
    have ms: "map_of (map_set k ?v m) n = (if n = k then Some ?v else map_of m n)"
      by (rule map_of_map_set[OF pk])
    have nm: "named n (d # ds) = (if n = k then d # named n ds else named n ds)"
      using Some by (auto simp: named_Cons)
    show ?thesis unfolding step ms nm by (simp add: merge_all_Cons merge_all_Nil)
  qed
qed

lemma named_values:
  "keyed m \<Longrightarrow> distinct (map fst m) \<Longrightarrow>
   named n (map snd m) = (case map_of m n of None \<Rightarrow> [] | Some v \<Rightarrow> [v])"
proof (induction m)
  case Nil
  show ?case by (simp add: named_Nil)
next
  case (Cons p m)
  then have k: "name_key (snd p) = Some (fst p)" and km: "keyed m" and d: "distinct (map fst m)"
    and nin: "fst p \<notin> fst ` set m"
    by (simp_all add: keyed_def)
  have notin: "map_of m (fst p) = None"
    using nin by (simp add: map_of_eq_None_iff)
  show ?case
  proof (cases "fst p = n")
    case True
    then show ?thesis using Cons.IH[OF km d] k notin by (cases p) (simp add: named_Cons)
  next
    case False
    then show ?thesis using Cons.IH[OF km d] k by (cases p) (auto simp add: named_Cons)
  qed
qed

lemma item_names_values: "keyed m \<Longrightarrow> item_names (map snd m) = map fst m"
  by (induction m) (simp_all add: keyed_def)

lemma last_opt_None: "last_opt xs = None \<longleftrightarrow> xs = []"
  by (induction xs) (auto split: option.splits)

lemma named_empty_iff: "named n xs = [] \<longleftrightarrow> n \<notin> set (item_names xs)"
  by (induction xs) (auto simp: named_Cons named_Nil split: option.splits)

section \<open>The merged cart\<close>

lemma cart_items_default: "cart_items (nullish_or B createDefaultCartState) = cart_items B"
  by (cases B) (simp_all add: cart_items_def nullish_or_def createDefaultCartState_def)

lemma cart_items_reconcile:
  "cart_items (reconcile B D) = map snd (fold merge_step D (fold seed_step (cart_items B) []))"
  using cart_items_default[of B]
  by (simp add: reconcile_def cart_items_def map_values_def Let_def)

lemma reconcile_keyed: "keyed (fold merge_step D (fold seed_step xs []))"
  by (simp add: keyed_fold_merge keyed_fold_seed keyed_Nil)

lemma reconcile_distinct:
  "plain_names xs \<Longrightarrow> plain_names D \<Longrightarrow>
   distinct (map fst (fold merge_step D (fold seed_step xs [])))"
  by (simp add: distinct_fold_merge distinct_fold_seed)

lemma reconcile_keys:
  assumes "plain_names xs" and "plain_names D"
  shows "map fst (fold merge_step D (fold seed_step xs []))
     = first_seen (item_names xs) @ first_seen (filter (\<lambda>n. n \<notin> set (item_names xs)) (item_names D))"
proof -
  have s: "set (first_seen_from [] (item_names xs)) = set (item_names xs)"
    by (simp add: first_seen_from_set)
  have "first_seen_from (first_seen_from [] (item_names xs)) (item_names D)
      = first_seen_from (item_names xs) (item_names D)"
    by (rule first_seen_from_cong) (rule s)
  also have "\<dots> = first_seen_from [] (filter (\<lambda>n. n \<notin> set (item_names xs)) (item_names D))"
    using first_seen_from_filter[of "[]" "item_names xs" "item_names D"] by simp
  finally show ?thesis
    by (simp add: fold_merge_keys[OF assms(2)] fold_seed_keys[OF assms(1)] first_seen_def)
qed

lemma reconcile_item_names:
  "plain_names (cart_items B) \<Longrightarrow> plain_names D \<Longrightarrow>
   item_names (cart_items (reconcile B D))
     = first_seen (item_names (cart_items B))
       @ first_seen (filter (\<lambda>n. n \<notin> set (item_names (cart_items B))) (item_names D))"
  by (simp add: cart_items_reconcile item_names_values reconcile_keyed reconcile_keys)

lemma first_seen_set: "set (first_seen xs) = set xs"
  by (simp add: first_seen_def first_seen_from_set)

lemma first_seen_distinct: "distinct (first_seen xs)"
  by (simp add: first_seen_def first_seen_from_distinct)

lemma named_count:
  "keyed m \<Longrightarrow> distinct (map fst m) \<Longrightarrow>
   length (named n (map snd m)) = (if n \<in> set (map fst m) then 1 else 0)"
proof -
  assume a: "keyed m" "distinct (map fst m)"
  have "n \<in> set (map fst m) \<longleftrightarrow> map_of m n \<noteq> None"
    by (simp add: map_of_eq_None_iff)
  then show ?thesis using named_values[OF a, of n] by (auto split: option.splits)
qed

text \<open>
  C1 (merge union). For a base and a delta whose names are strings (or other
  primitives), the items of \<open>reconcile B D\<close> carry pairwise different names, these
  names are exactly the non-empty names of the base items together with those of the
  incoming items, every item of the result carries a name, and for each such name the
  result holds exactly one item (and none for any other name). A name here is a
  non-empty \<^verbatim>\<open>name\<close> value; the statement needs no uniqueness of the names of \<open>D\<close>, so
  it covers every \<open>D\<close> whose names are non-empty and unique.
\<close>

theorem merge_union:
  assumes "plain_names (cart_items B)" and "plain_names D"
  shows "distinct (item_names (cart_items (reconcile B D)))
   \<and> set (item_names (cart_items (reconcile B D)))
       = set (item_names (cart_items B)) \<union> set (item_names D)
   \<and> length (item_names (cart_items (reconcile B D))) = length (cart_items (reconcile B D))
   \<and> length (named n (cart_items (reconcile B D)))
       = (if n \<in> set (item_names (cart_items B)) \<union> set (item_names D) then 1 else 0)"
proof -
  let ?m = "fold merge_step D (fold seed_step (cart_items B) [])"
  have k: "keyed ?m"
    by (rule reconcile_keyed)
  have d: "distinct (map fst ?m)"
    using assms by (rule reconcile_distinct)
  have names: "item_names (cart_items (reconcile B D)) = map fst ?m"
    by (simp add: cart_items_reconcile item_names_values k)
  have s: "set (map fst ?m) = set (item_names (cart_items B)) \<union> set (item_names D)"
    by (auto simp: reconcile_keys[OF assms] first_seen_set)
  have c1: "distinct (item_names (cart_items (reconcile B D)))"
    using names d by simp
  have c2: "set (item_names (cart_items (reconcile B D)))
       = set (item_names (cart_items B)) \<union> set (item_names D)"
    using names s by simp
  have c3: "length (item_names (cart_items (reconcile B D))) = length (cart_items (reconcile B D))"
    by (simp add: cart_items_reconcile item_names_values[OF k])
  have c4: "length (named n (cart_items (reconcile B D)))
       = (if n \<in> set (item_names (cart_items B)) \<union> set (item_names D) then 1 else 0)"
    using named_count[OF k d, of n] s by (simp add: cart_items_reconcile)
  show ?thesis using c1 c2 c3 c4 by blast
qed

theorem merge_union_witness:
  "plain_names (cart_items milk_cart) \<and> plain_names milk_bread_delta
   \<and> distinct (item_names (cart_items (reconcile milk_cart milk_bread_delta)))
   \<and> set (item_names (cart_items (reconcile milk_cart milk_bread_delta)))
       = {JStr ''milk'', JStr ''bread''}
   \<and> length (named (JStr ''bread'') (cart_items (reconcile milk_cart milk_bread_delta))) = 1
   \<and> length (named (JStr ''milk'') (cart_items (reconcile milk_cart milk_bread_delta))) = 1"
proof -
  have h1: "plain_names (cart_items milk_cart)"
    by (simp add: milk_cart_def cart_items_def plain_names_def name_key_def)
  have h2: "plain_names milk_bread_delta"
    by (simp add: milk_bread_delta_def plain_names_def name_key_def)
  have b: "item_names (cart_items milk_cart) = [JStr ''milk'']"
    by (simp add: milk_cart_def cart_items_def name_key_def)
  have d: "item_names milk_bread_delta = [JStr ''milk'', JStr ''bread'']"
    by (simp add: milk_bread_delta_def name_key_def)
  show ?thesis
    using merge_union[OF h1 h2, of "JStr ''bread''"] merge_union[OF h1 h2, of "JStr ''milk''"]
      h1 h2 b d
    by auto
qed

lemma spread_reconcile:
  "spread (reconcile B D) = fmupd ''items'' (JArr (cart_items (reconcile B D))) (spread (nullish_or B createDefaultCartState))"
  by (simp add: reconcile_def cart_items_def Let_def)

lemma spread_default_other:
  "k \<noteq> ''items'' \<Longrightarrow> fmlookup (spread (nullish_or B createDefaultCartState)) k = fmlookup (spread B) k"
  by (cases B) (simp_all add: nullish_or_def createDefaultCartState_def)

text \<open>
  C9 (merge frame and ordering). Every top-level field of the base other than
  \<^verbatim>\<open>items\<close> has the value it had, for every base and delta. When the names of base
  and delta are strings (or other primitives), the names of the output items are the
  base names in their original order (each where it first stands) followed by the names
  that only the delta brings, in the order in which they are first met. The output
  holds one item per listed name.
\<close>

theorem merge_frame_and_order:
  "(\<forall>k. k \<noteq> ''items'' \<longrightarrow> fmlookup (spread (reconcile B D)) k = fmlookup (spread B) k)
   \<and> (plain_names (cart_items B) \<and> plain_names D \<longrightarrow>
        item_names (cart_items (reconcile B D))
          = first_seen (item_names (cart_items B))
            @ first_seen (filter (\<lambda>n. n \<notin> set (item_names (cart_items B))) (item_names D)))
   \<and> length (cart_items (reconcile B D)) = length (item_names (cart_items (reconcile B D)))"
proof -
  have a: "\<forall>k. k \<noteq> ''items'' \<longrightarrow> fmlookup (spread (reconcile B D)) k = fmlookup (spread B) k"
    by (simp add: spread_reconcile spread_default_other)
  have c: "length (cart_items (reconcile B D)) = length (item_names (cart_items (reconcile B D)))"
    by (simp add: cart_items_reconcile item_names_values reconcile_keyed)
  show ?thesis using a reconcile_item_names[of B D] c by blast
qed

theorem merge_frame_and_order_witness:
  "''cartId'' \<noteq> ''items''
   \<and> plain_names (cart_items milk_cart) \<and> plain_names milk_bread_delta
   \<and> fmlookup (spread (reconcile milk_cart milk_bread_delta)) ''cartId'' = Some (JStr ''c1'')
   \<and> item_names (cart_items (reconcile milk_cart milk_bread_delta)) = [JStr ''milk'', JStr ''bread'']"
proof -
  have h: "''cartId'' \<noteq> ''items''" by simp
  have h1: "plain_names (cart_items milk_cart)"
    by (simp add: milk_cart_def cart_items_def plain_names_def name_key_def)
  have h2: "plain_names milk_bread_delta"
    by (simp add: milk_bread_delta_def plain_names_def name_key_def)
  have b: "fmlookup (spread milk_cart) ''cartId'' = Some (JStr ''c1'')"
    by (simp add: milk_cart_def)
  have n: "first_seen (item_names (cart_items milk_cart))
         @ first_seen (filter (\<lambda>n. n \<notin> set (item_names (cart_items milk_cart))) (item_names milk_bread_delta))
       = [JStr ''milk'', JStr ''bread'']"
    by (simp add: milk_cart_def milk_bread_delta_def cart_items_def name_key_def first_seen_def)
  show ?thesis
    using merge_frame_and_order[of milk_cart milk_bread_delta] h h1 h2 b n by simp
qed

section \<open>The record stored under a name\<close>

lemma last_opt_case_id: "(case last_opt xs of None \<Rightarrow> None | Some b \<Rightarrow> Some b) = last_opt xs"
  by (simp split: option.splits)

lemma seed_lookup: "plain_names xs \<Longrightarrow> map_of (fold seed_step xs []) n = last_opt (named n xs)"
  by (simp add: fold_seed_values split: option.splits)

lemma reconcile_named:
  assumes "plain_names (cart_items B)" and "plain_names D"
  shows "named n (cart_items (reconcile B D)) =
     (if named n D = []
      then (case last_opt (named n (cart_items B)) of None \<Rightarrow> [] | Some b \<Rightarrow> [b])
      else [JObj (merge_all (spread_opt (last_opt (named n (cart_items B)))) (map spread (named n D)))])"
  by (simp add: cart_items_reconcile named_values[OF reconcile_keyed reconcile_distinct[OF assms]]
      fold_merge_values[OF assms(2)] seed_lookup[OF assms(1)])

lemma merge_all_snoc: "merge_all s (ds @ [d]) = fmadd (merge_all s ds) d"
  by (simp add: merge_all_def)

lemma last_opt_snoc: "last_opt (xs @ [x]) = Some x"
  by (induction xs) simp_all

lemma merge_all_lookup:
  "fmlookup (merge_all s ds) k =
     (case last_opt (filter (\<lambda>d. fmlookup d k \<noteq> None) ds) of
        None \<Rightarrow> fmlookup s k
      | Some d \<Rightarrow> fmlookup d k)"
proof (induction ds rule: rev_induct)
  case Nil
  show ?case by (simp add: merge_all_Nil)
next
  case (snoc d ds)
  show ?case
  proof (cases "fmlookup d k")
    case None
    then have "fmlookup (fmadd (merge_all s ds) d) k = fmlookup (merge_all s ds) k"
      by (simp add: fmlookup_dom_iff)
    then show ?thesis using snoc None by (simp add: merge_all_snoc)
  next
    case (Some v)
    then have "fmlookup (fmadd (merge_all s ds) d) k = Some v"
      by (simp add: fmlookup_dom_iff)
    then show ?thesis using Some by (simp add: merge_all_snoc last_opt_snoc)
  qed
qed

lemma fmadd_lookup_case:
  "fmlookup (fmadd a b) k = (case fmlookup b k of None \<Rightarrow> fmlookup a k | Some v \<Rightarrow> Some v)"
  by (cases "fmlookup b k") (simp_all add: fmlookup_dom_iff)

text \<open>
  C10 (duplicate incoming names accumulate). For a base and a delta whose names are
  strings (or other primitives): when the incoming sequence holds one or more items
  named \<open>n\<close>, the result holds exactly one item named \<open>n\<close>: the merge, from left to
  right, of the base item of that name (the empty record if there is none) and then
  each incoming item of that name in sequence order. In such a merge a field has the
  value of the last record that carries it, and the seed's value when none does.
\<close>

theorem duplicate_incoming_accumulate:
  "(plain_names (cart_items B) \<and> plain_names D \<and> named n D \<noteq> [] \<longrightarrow>
      named n (cart_items (reconcile B D))
        = [JObj (merge_all (spread_opt (last_opt (named n (cart_items B)))) (map spread (named n D)))])
   \<and> fmlookup (merge_all seed ds) k =
       (case last_opt (filter (\<lambda>d. fmlookup d k \<noteq> None) ds) of
          None \<Rightarrow> fmlookup seed k
        | Some d \<Rightarrow> fmlookup d k)"
proof -
  have "named n (cart_items (reconcile B D))
        = [JObj (merge_all (spread_opt (last_opt (named n (cart_items B)))) (map spread (named n D)))]"
    if "plain_names (cart_items B) \<and> plain_names D \<and> named n D \<noteq> []"
    using that reconcile_named[of B D n] by simp
  then show ?thesis using merge_all_lookup[of seed ds k] by blast
qed

theorem duplicate_incoming_accumulate_witness:
  "plain_names (cart_items red_cart) \<and> plain_names [JObj x_three, JObj x_note]
   \<and> named (JStr ''x'') [JObj x_three, JObj x_note] \<noteq> []
   \<and> named (JStr ''x'') (cart_items (reconcile red_cart [JObj x_three, JObj x_note]))
       = [JObj (fmap_of_list [(''name'', JStr ''x''), (''qty'', JNum 3),
                              (''color'', JStr ''red''), (''note'', JStr ''gift'')])]"
proof -
  have h: "named (JStr ''x'') [JObj x_three, JObj x_note] = [JObj x_three, JObj x_note]"
    by (simp add: x_three_def x_note_def named_def name_key_def)
  have b: "last_opt (named (JStr ''x'') (cart_items red_cart)) = Some (JObj red_x)"
    by (simp add: red_cart_def red_x_def cart_items_def named_def name_key_def)
  have m: "merge_all red_x [x_three, x_note]
         = fmap_of_list [(''name'', JStr ''x''), (''qty'', JNum 3),
                         (''color'', JStr ''red''), (''note'', JStr ''gift'')]"
    by code_simp
  have p1: "plain_names (cart_items red_cart)"
    by (simp add: red_cart_def red_x_def cart_items_def plain_names_def name_key_def)
  have p2: "plain_names [JObj x_three, JObj x_note]"
    by (simp add: x_three_def x_note_def plain_names_def name_key_def)
  show ?thesis
    using duplicate_incoming_accumulate[of red_cart "[JObj x_three, JObj x_note]" "JStr ''x''"]
      h b m p1 p2
    by simp
qed

text \<open>
  C2 (field precedence). For a base and a delta whose names are strings (or other
  primitives): when the base holds an item \<open>b\<close> named \<open>n\<close> (its last one of that
  name) and the delta holds the one item \<open>d\<close> named \<open>n\<close>, the item named \<open>n\<close> in the
  result is their field-wise merge: each field has the incoming value when \<open>d\<close> carries
  it and the base value otherwise.
\<close>

theorem field_precedence:
  assumes "plain_names (cart_items B)" and "plain_names D"
    and "last_opt (named n (cart_items B)) = Some (JObj b)"
    and "named n D = [JObj d]"
  shows "named n (cart_items (reconcile B D)) = [JObj (fmadd b d)]
         \<and> (\<forall>k. fmlookup (fmadd b d) k =
                (case fmlookup d k of None \<Rightarrow> fmlookup b k | Some v \<Rightarrow> Some v))"
proof -
  have "named n (cart_items (reconcile B D)) = [JObj (fmadd b d)]"
    using assms(3,4) reconcile_named[OF assms(1,2), of n]
    by (simp add: merge_all_Cons merge_all_Nil)
  moreover have "\<forall>k. fmlookup (fmadd b d) k =
                (case fmlookup d k of None \<Rightarrow> fmlookup b k | Some v \<Rightarrow> Some v)"
    using fmadd_lookup_case[of b d] by blast
  ultimately show ?thesis by blast
qed

theorem field_precedence_witness:
  "plain_names (cart_items red_cart) \<and> plain_names [JObj x_three]
   \<and> last_opt (named (JStr ''x'') (cart_items red_cart)) = Some (JObj red_x)
   \<and> named (JStr ''x'') [JObj x_three] = [JObj x_three]
   \<and> named (JStr ''x'') (cart_items (reconcile red_cart [JObj x_three]))
       = [JObj (fmap_of_list [(''name'', JStr ''x''), (''qty'', JNum 3), (''color'', JStr ''red'')])]"
proof -
  have h1: "last_opt (named (JStr ''x'') (cart_items red_cart)) = Some (JObj red_x)"
    by (simp add: red_cart_def red_x_def cart_items_def named_def name_key_def)
  have h2: "named (JStr ''x'') [JObj x_three] = [JObj x_three]"
    by (simp add: x_three_def named_def name_key_def)
  have m: "fmadd red_x x_three
         = fmap_of_list [(''name'', JStr ''x''), (''qty'', JNum 3), (''color'', JStr ''red'')]"
    by code_simp
  have p1: "plain_names (cart_items red_cart)"
    by (simp add: red_cart_def red_x_def cart_items_def plain_names_def name_key_def)
  have p2: "plain_names [JObj x_three]"
    by (simp add: x_three_def plain_names_def name_key_def)
  show ?thesis using field_precedence[OF p1 p2 h1 h2] p1 p2 h1 h2 m by simp
qed

section \<open>Merging the same delta again\<close>

lemma merge_all_fmadd: "merge_all s ds = fmadd s (merge_all fmempty ds)"
proof (induction ds arbitrary: s)
  case Nil
  show ?case by (simp add: merge_all_Nil)
next
  case (Cons d ds)
  have "merge_all s (d # ds) = fmadd (fmadd s d) (merge_all fmempty ds)"
    using Cons[of "fmadd s d"] by (simp add: merge_all_Cons)
  moreover have "merge_all fmempty (d # ds) = fmadd d (merge_all fmempty ds)"
    using Cons[of d] by (simp add: merge_all_Cons)
  ultimately show ?case by simp
qed

lemma merge_all_twice: "merge_all (merge_all s ds) ds = merge_all s ds"
proof -
  have "merge_all (merge_all s ds) ds
      = fmadd (fmadd s (merge_all fmempty ds)) (merge_all fmempty ds)"
    using merge_all_fmadd[of "merge_all s ds" ds] merge_all_fmadd[of s ds] by simp
  also have "\<dots> = fmadd s (merge_all fmempty ds)"
    by (metis fmadd_assoc fmadd_idempotent)
  finally show ?thesis using merge_all_fmadd[of s ds] by simp
qed

lemma alist_eqI:
  "distinct (map fst xs) \<Longrightarrow> map fst xs = map fst ys \<Longrightarrow> map_of xs = map_of ys \<Longrightarrow> xs = ys"
proof (induction xs arbitrary: ys)
  case Nil
  then show ?case by simp
next
  case (Cons p xs)
  then obtain q ys' where ys: "ys = q # ys'" by (cases ys) auto
  from Cons.prems ys have k: "fst p = fst q" and ks: "map fst xs = map fst ys'" by simp_all
  have eq: "map_of (p # xs) = map_of (q # ys')"
    using Cons.prems(3) unfolding ys .
  have pt: "map_of (p # xs) a = map_of (q # ys') a" for a
    by (rule fun_cong[OF eq])
  have v: "snd p = snd q" using pt[of "fst p"] k by simp
  have pq: "p = q" using k v by (simp add: prod_eq_iff)
  have nin: "fst p \<notin> set (map fst xs)" and d: "distinct (map fst xs)"
    using Cons.prems(1) by simp_all
  have "map_of xs = map_of ys'"
  proof
    fix a
    show "map_of xs a = map_of ys' a"
    proof (cases "a = fst p")
      case True
      have "map_of xs a = None" using nin True by (simp add: map_of_eq_None_iff)
      moreover have "map_of ys' a = None" using nin True ks by (simp add: map_of_eq_None_iff)
      ultimately show ?thesis by simp
    next
      case False
      show ?thesis using pt[of a] False k by simp
    qed
  qed
  then have "xs = ys'" using Cons.IH[OF d ks] by simp
  then show ?case using pq ys by simp
qed

lemma reseed:
  "keyed m \<Longrightarrow> distinct (map fst (acc @ m)) \<Longrightarrow> fold seed_step (map snd m) acc = acc @ m"
proof (induction m arbitrary: acc)
  case Nil
  show ?case by simp
next
  case (Cons p m)
  have k: "name_key (snd p) = Some (fst p)" and km: "keyed m"
    using Cons.prems(1) by (simp_all add: keyed_def)
  have fresh: "fst p \<notin> set (map fst acc)" using Cons.prems(2) by auto
  have step: "seed_step (snd p) acc = acc @ [p]"
    using k fresh by (simp add: seed_step_def map_set_fresh)
  have d: "distinct (map fst ((acc @ [p]) @ m))" using Cons.prems(2) by simp
  show ?case using Cons.IH[OF km d] step by simp
qed

lemma remerge:
  assumes "distinct (map fst m0)" and pd: "plain_names D"
  shows "fold merge_step D (fold merge_step D m0) = fold merge_step D m0"
proof -
  let ?m1 = "fold merge_step D m0"
  have d: "distinct (map fst ?m1)"
    using pd assms(1) by (rule distinct_fold_merge)
  have sub: "set (item_names D) \<subseteq> set (map fst ?m1)"
    by (auto simp: fold_merge_keys[OF pd] first_seen_from_set)
  have keys: "map fst ?m1 = map fst (fold merge_step D ?m1)"
    using first_seen_from_subset[OF sub] by (simp add: fold_merge_keys[OF pd, of ?m1])
  have vals: "map_of ?m1 = map_of (fold merge_step D ?m1)"
  proof
    fix n
    show "map_of ?m1 n = map_of (fold merge_step D ?m1) n"
    proof (cases "named n D = []")
      case True
      then show ?thesis by (simp add: fold_merge_values[OF pd, of ?m1])
    next
      case False
      then have one: "map_of ?m1 n
          = Some (JObj (merge_all (spread_opt (map_of m0 n)) (map spread (named n D))))"
        by (simp add: fold_merge_values[OF pd, of m0])
      have "map_of (fold merge_step D ?m1) n
          = Some (JObj (merge_all (spread_opt (map_of ?m1 n)) (map spread (named n D))))"
        using False by (simp add: fold_merge_values[OF pd, of ?m1])
      also have "\<dots> = Some (JObj (merge_all (spread_opt (map_of m0 n)) (map spread (named n D))))"
        by (simp add: one merge_all_twice)
      finally show ?thesis using one by simp
    qed
  qed
  show ?thesis using alist_eqI[OF d keys vals] by simp
qed

lemma reconcile_again_map:
  assumes "plain_names xs" and "plain_names D"
  shows "fold merge_step D (fold seed_step (map snd (fold merge_step D (fold seed_step xs []))) [])
     = fold merge_step D (fold seed_step xs [])"
proof -
  let ?m = "fold merge_step D (fold seed_step xs [])"
  have "fold seed_step (map snd ?m) [] = [] @ ?m"
    by (rule reseed) (simp_all add: reconcile_keyed reconcile_distinct[OF assms])
  moreover have "distinct (map fst (fold seed_step xs []))"
    using assms(1) by (simp add: distinct_fold_seed)
  ultimately show ?thesis
    using remerge[of "fold seed_step xs []" D] assms(2) by simp
qed

lemma reconcile_not_null: "reconcile B D \<noteq> JNull"
  by (simp add: reconcile_def Let_def)

text \<open>
  C3 (idempotence). Merging the same incoming items into the result of the first merge
  gives that result again, for every base and every delta whose names are strings (or
  other primitives).
\<close>

theorem reconcile_idempotent:
  assumes "plain_names (cart_items B)" and "plain_names D"
  shows "reconcile (reconcile B D) D = reconcile B D"
proof -
  let ?R = "reconcile B D"
  have base: "nullish_or ?R createDefaultCartState = ?R"
    by (simp add: nullish_or_def reconcile_not_null)
  have items: "array_or_empty (get_prop ?R ''items'') = cart_items ?R"
    by (simp add: cart_items_def)
  have same: "map_values (fold merge_step D (fold seed_step (cart_items ?R) [])) = cart_items ?R"
    by (simp add: map_values_def cart_items_reconcile reconcile_again_map[OF assms])
  have "reconcile ?R D = JObj (fmupd ''items'' (JArr (cart_items ?R)) (spread ?R))"
    using base items same by (simp add: reconcile_def[of ?R D] Let_def)
  also have "\<dots> = JObj (fmupd ''items'' (JArr (cart_items ?R))
                   (fmupd ''items'' (JArr (cart_items ?R)) (spread (nullish_or B createDefaultCartState))))"
    by (simp only: spread_reconcile)
  also have "\<dots> = JObj (spread ?R)"
    by (simp add: spread_reconcile)
  also have "\<dots> = ?R"
    by (simp add: reconcile_def Let_def)
  finally show ?thesis .
qed

theorem reconcile_idempotent_witness:
  "plain_names (cart_items milk_cart) \<and> plain_names milk_bread_delta
   \<and> reconcile (reconcile milk_cart milk_bread_delta) milk_bread_delta
       = reconcile milk_cart milk_bread_delta
   \<and> cart_items (reconcile milk_cart milk_bread_delta) = milk_bread_delta"
proof -
  have h1: "plain_names (cart_items milk_cart)"
    by (simp add: milk_cart_def cart_items_def plain_names_def name_key_def)
  have h2: "plain_names milk_bread_delta"
    by (simp add: milk_bread_delta_def plain_names_def name_key_def)
  have r: "cart_items (reconcile milk_cart milk_bread_delta) = milk_bread_delta"
    by code_simp
  show ?thesis using reconcile_idempotent[OF h1 h2] h1 h2 r by simp
qed

text \<open>
  Names that are objects are outside these statements, because the map holds them
  apart: a base item and an incoming item whose names are two objects of the same
  content stay two items, and merging the same delta once more adds a third.
\<close>

lemma object_names_kept_apart:
  "cart_items (reconcile (JObj (fmap_of_list [(''items'', JArr [id_named_item])])) [id_named_item])
     = [id_named_item, id_named_item]
   \<and> length (cart_items (reconcile
        (reconcile (JObj (fmap_of_list [(''items'', JArr [id_named_item])])) [id_named_item])
        [id_named_item])) = 3"
  by code_simp

section \<open>Index keys are never \<^verbatim>\<open>name\<close> or \<^verbatim>\<open>quantity\<close>\<close>

declare decimal.simps [simp del]

lemma decimal_last: "decimal n \<noteq> [] \<and> last (decimal n) = digit_char (n mod 10)"
  by (subst decimal.simps, subst decimal.simps) simp

lemma digit_char_code: "of_char (digit_char (n mod 10)) = 48 + n mod 10"
proof -
  have "(48 + n mod 10) mod 256 = 48 + n mod 10"
    by (rule mod_less) arith
  then show ?thesis by simp
qed

lemma decimal_not_word:
  assumes "k \<noteq> []" and "(of_char (last k) :: nat) > 57"
  shows "decimal n \<noteq> k"
proof
  assume "decimal n = k"
  then have "last k = digit_char (n mod 10)" using decimal_last[of n] by simp
  then have "(of_char (last k) :: nat) = 48 + n mod 10" using digit_char_code[of n] by simp
  then show False using assms(2) by arith
qed

lemma indexed_keys: "fst ` set (indexed xs) \<subseteq> range decimal"
proof
  fix k assume "k \<in> fst ` set (indexed xs)"
  then obtain v where "(k, v) \<in> set (zip (map decimal [0..<length xs]) xs)"
    by (auto simp: indexed_def)
  then have "k \<in> set (map decimal [0..<length xs])" by (rule set_zip_leftD)
  then show "k \<in> range decimal" by auto
qed

lemma indexed_lookup:
  assumes "k \<noteq> []" and "(of_char (last k) :: nat) > 57"
  shows "fmlookup (fmap_of_list (indexed xs)) k = None"
proof -
  have "k \<notin> range decimal" using decimal_not_word[OF assms] by auto
  then have "k \<notin> fst ` set (indexed xs)" using indexed_keys[of xs] by blast
  then show ?thesis by (simp add: fmlookup_of_list map_of_eq_None_iff)
qed

lemma spread_prop:
  assumes "k \<noteq> []" and "(of_char (last k) :: nat) > 57"
  shows "fmlookup (spread v) k = get_prop v k"
  by (cases v) (simp_all add: indexed_lookup[OF assms])

lemma spread_name: "fmlookup (spread v) ''name'' = get_prop v ''name''"
  by (rule spread_prop) simp_all

lemma spread_quantity: "fmlookup (spread v) ''quantity'' = get_prop v ''quantity''"
  by (rule spread_prop) simp_all

section \<open>Incoming items without a name\<close>

lemma merge_step_unnamed: "name_key x = None \<Longrightarrow> merge_step x m = m"
  by (simp add: merge_step_def)

lemma fold_merge_filter:
  "fold merge_step (filter (\<lambda>x. name_key x \<noteq> None) D) m = fold merge_step D m"
  by (induction D arbitrary: m) (simp_all add: merge_step_unnamed)

lemma reconcile_filter: "reconcile B (filter (\<lambda>x. name_key x \<noteq> None) D) = reconcile B D"
  by (simp only: reconcile_def fold_merge_filter)

lemma zip_names_keyed: "all_named xs \<Longrightarrow> keyed (zip (item_names xs) xs) \<and> map snd (zip (item_names xs) xs) = xs
   \<and> map fst (zip (item_names xs) xs) = item_names xs"
  by (induction xs) (auto simp: all_named_def keyed_def)

lemma seed_all_named:
  assumes "all_named xs" and "distinct (item_names xs)"
  shows "map snd (fold seed_step xs []) = xs"
proof -
  let ?m = "zip (item_names xs) xs"
  have k: "keyed ?m" and s: "map snd ?m = xs" and f: "map fst ?m = item_names xs"
    using zip_names_keyed[OF assms(1)] by simp_all
  have d: "distinct (map fst ([] @ ?m))" using f assms(2) by simp
  have "fold seed_step (map snd ?m) [] = [] @ ?m" using k d by (rule reseed)
  then show ?thesis using s by simp
qed

lemma fmupd_same: "fmlookup b k = Some v \<Longrightarrow> fmupd k v b = b"
  by (rule fmap_ext) auto

text \<open>
  C8 (malformed-input degradation), as amended. A tool output whose \<^verbatim>\<open>items\<close> is
  absent or not a list gives no incoming items; incoming items without a non-empty
  name change nothing, so that merging \<^verbatim>\<open>[{quantity: 5}]\<close> equals merging the empty
  sequence for every base; and both equal the base itself when the base is an object
  whose \<^verbatim>\<open>items\<close> is a list of items with non-empty, pairwise different names.
\<close>

theorem malformed_input_degradation:
  "((\<forall>xs. get_prop t ''items'' \<noteq> Some (JArr xs)) \<longrightarrow> incomingItems t = [])
   \<and> reconcile B (filter (\<lambda>x. name_key x \<noteq> None) D) = reconcile B D
   \<and> reconcile B [quantity_only] = reconcile B []
   \<and> (fmlookup b ''items'' = Some (JArr xs) \<and> all_named xs \<and> distinct (item_names xs) \<longrightarrow>
        reconcile (JObj b) [quantity_only] = JObj b \<and> reconcile (JObj b) [] = JObj b)"
proof -
  have a: "(\<forall>xs. get_prop t ''items'' \<noteq> Some (JArr xs)) \<longrightarrow> incomingItems t = []"
  proof
    assume h: "\<forall>xs. get_prop t ''items'' \<noteq> Some (JArr xs)"
    show "incomingItems t = []"
    proof (cases "get_prop t ''items''")
      case None
      then show ?thesis by (simp add: incomingItems_def)
    next
      case (Some v)
      then show ?thesis using h by (cases v) (simp_all add: incomingItems_def)
    qed
  qed
  have q: "name_key quantity_only = None"
    by (simp add: quantity_only_def name_key_def)
  have c: "reconcile B [quantity_only] = reconcile B []"
    using reconcile_filter[of B "[quantity_only]"] q by simp
  have d: "reconcile (JObj b) [] = JObj b"
    if h: "fmlookup b ''items'' = Some (JArr xs)" "all_named xs" "distinct (item_names xs)"
    using seed_all_named[OF h(2) h(3)] h(1)
    by (simp add: reconcile_def nullish_or_def map_values_def fmupd_same Let_def)
  have e: "reconcile (JObj b) [quantity_only] = JObj b"
    if h: "fmlookup b ''items'' = Some (JArr xs)" "all_named xs" "distinct (item_names xs)"
    using d[OF h] reconcile_filter[of "JObj b" "[quantity_only]"] q by simp
  show ?thesis using a reconcile_filter[of B D] c d e by blast
qed

theorem malformed_input_degradation_witness:
  "(\<forall>xs. get_prop (JObj (fmap_of_list [(''items'', JStr ''none'')])) ''items'' \<noteq> Some (JArr xs))
   \<and> incomingItems (JObj (fmap_of_list [(''items'', JStr ''none'')])) = []
   \<and> fmlookup (spread milk_cart) ''items'' = Some (JArr (cart_items milk_cart))
   \<and> all_named (cart_items milk_cart) \<and> distinct (item_names (cart_items milk_cart))
   \<and> reconcile milk_cart [quantity_only] = milk_cart \<and> reconcile milk_cart [] = milk_cart"
proof -
  have h0: "\<forall>xs. get_prop (JObj (fmap_of_list [(''items'', JStr ''none'')])) ''items'' \<noteq> Some (JArr xs)"
    by simp
  have h1: "fmlookup (spread milk_cart) ''items'' = Some (JArr (cart_items milk_cart))"
    by (simp add: milk_cart_def cart_items_def)
  have h2: "all_named (cart_items milk_cart)"
    by (simp add: milk_cart_def cart_items_def all_named_def name_key_def)
  have h3: "distinct (item_names (cart_items milk_cart))"
    by (simp add: milk_cart_def cart_items_def name_key_def)
  have m: "JObj (spread milk_cart) = milk_cart"
    by (simp add: milk_cart_def)
  show ?thesis
    using malformed_input_degradation[of "JObj (fmap_of_list [(''items'', JStr ''none'')])"
        "JObj (spread milk_cart)" "[]" "spread milk_cart" "cart_items milk_cart"]
      h0 h1 h2 h3 m
    by simp
qed

text \<open>
  C8 as stated fails: merging the empty sequence into a cart without an \<^verbatim>\<open>items\<close>
  field adds the field, and merging it into a cart that holds an item with an empty
  name drops that item.
\<close>

theorem reconcile_unchanged_counterexample:
  "reconcile no_items_cart [] \<noteq> no_items_cart
   \<and> reconcile unnamed_item_cart [] \<noteq> unnamed_item_cart"
  by code_simp

section \<open>The quantity adjuster\<close>

lemma findIndex_map: "findIndex P (map f xs) = findIndex (\<lambda>x. P (f x)) xs"
  by (induction xs) simp_all

lemma findIndex_None: "findIndex P xs = None \<longleftrightarrow> list_all (\<lambda>x. \<not> P x) xs"
  by (induction xs) simp_all

lemma findIndex_split:
  "list_all (\<lambda>x. \<not> P x) pre \<Longrightarrow> P y \<Longrightarrow> findIndex P (pre @ y # post) = Some (length pre)"
  by (induction pre) simp_all

lemma findIndex_Some:
  "findIndex P xs = Some i \<Longrightarrow>
   \<exists>pre y post. xs = pre @ y # post \<and> list_all (\<lambda>x. \<not> P x) pre \<and> P y"
proof (induction xs arbitrary: i)
  case Nil
  then show ?case by simp
next
  case (Cons x xs)
  show ?case
  proof (cases "P x")
    case True
    then have "x # xs = [] @ x # xs \<and> list_all (\<lambda>x. \<not> P x) [] \<and> P x" by simp
    then show ?thesis by blast
  next
    case False
    then obtain j where "findIndex P xs = Some j" using Cons.prems by auto
    then obtain pre y post where s: "xs = pre @ y # post" "list_all (\<lambda>x. \<not> P x) pre" "P y"
      using Cons.IH by blast
    then have "x # xs = (x # pre) @ y # post \<and> list_all (\<lambda>x. \<not> P x) (x # pre) \<and> P y"
      using False by simp
    then show ?thesis by blast
  qed
qed

lemma adjust_index:
  "findIndex (\<lambda>item. fmlookup item ''name'' = Some (JStr name)) (map spread xs)
     = findIndex (has_name name) xs"
  by (simp add: findIndex_map spread_name has_name_def[abs_def])

lemma cart_items_base: "cart_items (nullish_or C (JObj fmempty)) = cart_items C"
  by (cases C) (simp_all add: nullish_or_def cart_items_def)

lemma adjust_missing:
  assumes "list_all (\<lambda>x. \<not> has_name name x) (cart_items C)"
  shows "adjustQuantity coerce name delta C
           = (if name = [] \<or> delta = 0 then C else nullish_or C (JObj fmempty))"
proof -
  have "findIndex (has_name name) (cart_items (nullish_or C (JObj fmempty))) = None"
    using assms by (simp add: findIndex_None cart_items_base)
  then show ?thesis
    by (simp add: adjustQuantity_def adjust_index cart_items_def[symmetric] Let_def)
qed

lemma adjust_found:
  assumes "name \<noteq> []" and "delta \<noteq> 0"
    and "cart_items C = pre @ it # post"
    and "list_all (\<lambda>x. \<not> has_name name x) pre" and "has_name name it"
  shows "adjustQuantity coerce name delta C =
     JObj (fmupd ''items''
       (JArr (if nextQuantity coerce (spread it) delta = JNum 0
              then map copy_item pre @ map copy_item post
              else map copy_item pre
                   @ JObj (fmupd ''quantity'' (nextQuantity coerce (spread it) delta) (spread it))
                   # map copy_item post))
       (spread C))"
proof -
  have nn: "C \<noteq> JNull" using assms(3) by (auto simp: cart_items_def)
  then have base: "nullish_or C (JObj fmempty) = C" by (simp add: nullish_or_def)
  have items: "array_or_empty (get_prop C ''items'') = pre @ it # post"
    using assms(3) by (simp add: cart_items_def)
  have idx: "findIndex (\<lambda>item. fmlookup item ''name'' = Some (JStr name)) (map spread (pre @ it # post))
           = Some (length pre)"
    using findIndex_split[OF assms(4) assms(5)] by (simp only: adjust_index)
  have idx': "findIndex (\<lambda>item. fmlookup item ''name'' = Some (JStr name))
               (map spread pre @ spread it # map spread post) = Some (length pre)"
    using idx by simp
  have cp: "copy_item = JObj \<circ> spread"
    by (rule ext) (simp add: copy_item_def)
  show ?thesis
    using assms(1,2)
    by (simp add: adjustQuantity_def base items idx' nth_append list_update_append cp Let_def)
qed

lemma safe_integer_0: "safe_integer 0"
  by (simp add: safe_integer_def MAX_SAFE_INTEGER_def)

lemma nextQuantity_absent:
  "fmlookup cur ''quantity'' = None \<or> fmlookup cur ''quantity'' = Some JNull \<Longrightarrow>
   safe_integer delta \<Longrightarrow>
   nextQuantity coerce cur delta = JNum (max 0 delta)"
  by (auto simp: nextQuantity_def max0_plus_def safe_integer_0)

lemma nextQuantity_number:
  "fmlookup cur ''quantity'' = Some (JNum q) \<Longrightarrow>
   safe_integer q \<Longrightarrow> safe_integer delta \<Longrightarrow> safe_integer (q + delta) \<Longrightarrow>
   nextQuantity coerce cur delta = JNum (max 0 (q + delta))"
  by (simp add: nextQuantity_def max0_plus_def)

lemma adjust_null:
  "adjustQuantity coerce name delta JNull
     = (if name = [] \<or> delta = 0 then JNull else JObj fmempty)"
  using adjust_missing[of name JNull coerce delta]
  by (simp add: cart_items_def nullish_or_def)

text \<open>
  C4 (quantity adjustment). On a cart (an object), \<^verbatim>\<open>adjustQuantity\<close> gives the cart
  back when the name is empty, the delta is 0 or no item has that name. Otherwise, with
  \<open>cur\<close> the first item of that name, standing between \<open>pre\<close> and \<open>post\<close>: the new
  quantity is \<open>max 0 (q + delta)\<close> for a current quantity \<open>q\<close>, with 0 for \<open>q\<close> when
  the quantity is absent or \<^verbatim>\<open>null\<close>, as long as \<open>q\<close>, \<open>delta\<close> and their sum are safe
  integers (beyond, the double sum is rounded); when it is 0 the item is left out,
  otherwise it stands where it stood with only its \<^verbatim>\<open>quantity\<close> set; the other items
  follow in their order, each as its shallow copy, which for an object is the same
  record; the other fields of the cart are kept. Where there is no cart yet
  (\<^verbatim>\<open>null\<close>), no item is created either: an empty name or a zero delta leaves
  \<^verbatim>\<open>null\<close>, and otherwise the state becomes the empty object.
\<close>

theorem adjust_quantity_spec:
  "((name = [] \<or> delta = 0 \<or> list_all (\<lambda>x. \<not> has_name name x) (cart_items (JObj c))) \<longrightarrow>
      adjustQuantity coerce name delta (JObj c) = JObj c)
   \<and> ((name \<noteq> [] \<and> delta \<noteq> 0 \<and> cart_items (JObj c) = pre @ JObj cur # post
        \<and> list_all (\<lambda>x. \<not> has_name name x) pre \<and> has_name name (JObj cur)) \<longrightarrow>
      adjustQuantity coerce name delta (JObj c) =
        JObj (fmupd ''items''
          (JArr (if nextQuantity coerce cur delta = JNum 0
                 then map copy_item pre @ map copy_item post
                 else map copy_item pre
                      @ JObj (fmupd ''quantity'' (nextQuantity coerce cur delta) cur)
                      # map copy_item post))
          c))
   \<and> (((fmlookup cur ''quantity'' = None \<or> fmlookup cur ''quantity'' = Some JNull)
         \<and> safe_integer delta) \<longrightarrow>
        nextQuantity coerce cur delta = JNum (max 0 (0 + delta)))
   \<and> ((fmlookup cur ''quantity'' = Some (JNum q)
         \<and> safe_integer q \<and> safe_integer delta \<and> safe_integer (q + delta)) \<longrightarrow>
        nextQuantity coerce cur delta = JNum (max 0 (q + delta)))
   \<and> copy_item (JObj f) = JObj f
   \<and> adjustQuantity coerce name delta JNull
       = (if name = [] \<or> delta = 0 then JNull else JObj fmempty)"
proof -
  have a: "adjustQuantity coerce name delta (JObj c) = JObj c"
    if "name = [] \<or> delta = 0 \<or> list_all (\<lambda>x. \<not> has_name name x) (cart_items (JObj c))"
  proof (cases "name = [] \<or> delta = 0")
    case True
    then show ?thesis by (auto simp: adjustQuantity_def)
  next
    case False
    then have "list_all (\<lambda>x. \<not> has_name name x) (cart_items (JObj c))" using that by blast
    then show ?thesis using adjust_missing[of name "JObj c" coerce delta]
      by (simp add: nullish_or_def)
  qed
  have b: "adjustQuantity coerce name delta (JObj c) =
        JObj (fmupd ''items''
          (JArr (if nextQuantity coerce cur delta = JNum 0
                 then map copy_item pre @ map copy_item post
                 else map copy_item pre
                      @ JObj (fmupd ''quantity'' (nextQuantity coerce cur delta) cur)
                      # map copy_item post))
          c)"
    if "name \<noteq> [] \<and> delta \<noteq> 0 \<and> cart_items (JObj c) = pre @ JObj cur # post
        \<and> list_all (\<lambda>x. \<not> has_name name x) pre \<and> has_name name (JObj cur)"
    using adjust_found[of name delta "JObj c" pre "JObj cur" post coerce] that by simp
  have c: "nextQuantity coerce cur delta = JNum (max 0 (0 + delta))"
    if "(fmlookup cur ''quantity'' = None \<or> fmlookup cur ''quantity'' = Some JNull)
        \<and> safe_integer delta"
    using that nextQuantity_absent[of cur delta coerce] by simp
  have n: "nextQuantity coerce cur delta = JNum (max 0 (q + delta))"
    if "fmlookup cur ''quantity'' = Some (JNum q)
        \<and> safe_integer q \<and> safe_integer delta \<and> safe_integer (q + delta)"
    using that nextQuantity_number[of cur q delta coerce] by simp
  have d: "copy_item (JObj f) = JObj f"
    by (simp add: copy_item_def)
  show ?thesis using a b c n d adjust_null[of coerce name delta] by blast
qed

theorem adjust_quantity_spec_witness:
  "list_all (\<lambda>x. \<not> has_name ''banana'' x) (cart_items (JObj apple_cart_fields))
   \<and> adjustQuantity no_coercion ''banana'' 1 (JObj apple_cart_fields) = JObj apple_cart_fields
   \<and> cart_items (JObj apple_cart_fields) = [] @ JObj apple_item # []
   \<and> has_name ''apple'' (JObj apple_item)
   \<and> fmlookup apple_item ''quantity'' = Some (JNum 1)
   \<and> safe_integer 1 \<and> safe_integer (- 5) \<and> safe_integer (1 + - 5)
   \<and> safe_integer 2 \<and> safe_integer (1 + 2)
   \<and> adjustQuantity no_coercion ''apple'' (- 5) (JObj apple_cart_fields)
       = JObj (fmap_of_list [(''items'', JArr [])])
   \<and> adjustQuantity no_coercion ''apple'' 2 (JObj apple_cart_fields)
       = JObj (fmap_of_list [(''items'',
           JArr [JObj (fmap_of_list [(''name'', JStr ''apple''), (''quantity'', JNum 3)])])])
   \<and> cart_items (JObj pear_cart_fields) = [] @ JObj pear_item # []
   \<and> has_name ''pear'' (JObj pear_item)
   \<and> fmlookup pear_item ''quantity'' = None
   \<and> adjustQuantity no_coercion ''pear'' 2 (JObj pear_cart_fields)
       = JObj (fmap_of_list [(''items'',
           JArr [JObj (fmap_of_list [(''name'', JStr ''pear''), (''quantity'', JNum 2)])])])
   \<and> adjustQuantity no_coercion ''apple'' 1 JNull = JObj fmempty"
proof -
  have sf: "safe_integer 1 \<and> safe_integer (- 5) \<and> safe_integer (1 + - 5)
            \<and> safe_integer 2 \<and> safe_integer (1 + 2)"
    by (simp add: safe_integer_def MAX_SAFE_INTEGER_def)
  have h1: "list_all (\<lambda>x. \<not> has_name ''banana'' x) (cart_items (JObj apple_cart_fields))"
    by (simp add: apple_cart_fields_def apple_item_def cart_items_def has_name_def)
  have h2: "cart_items (JObj apple_cart_fields) = [] @ JObj apple_item # []"
    by (simp add: apple_cart_fields_def cart_items_def)
  have h3: "has_name ''apple'' (JObj apple_item)"
    by (simp add: apple_item_def has_name_def)
  have h4: "fmlookup apple_item ''quantity'' = Some (JNum 1)"
    by (simp add: apple_item_def)
  have h5: "list_all (\<lambda>x. \<not> has_name ''apple'' x) []"
    by simp
  have e1: "fmupd ''items'' (JArr []) apple_cart_fields = fmap_of_list [(''items'', JArr [])]"
    by code_simp
  have e2: "fmupd ''items'' (JArr [JObj (fmupd ''quantity'' (JNum 3) apple_item)]) apple_cart_fields
          = fmap_of_list [(''items'',
              JArr [JObj (fmap_of_list [(''name'', JStr ''apple''), (''quantity'', JNum 3)])])]"
    by code_simp
  have banana: "adjustQuantity no_coercion ''banana'' 1 (JObj apple_cart_fields) = JObj apple_cart_fields"
    using adjust_quantity_spec[where name="''banana''" and delta=1 and c=apple_cart_fields
          and coerce=no_coercion and pre="[]" and cur=apple_item and post="[]" and q=1 and f=fmempty]
      h1 by simp
  have minus: "adjustQuantity no_coercion ''apple'' (- 5) (JObj apple_cart_fields)
       = JObj (fmap_of_list [(''items'', JArr [])])"
    using adjust_quantity_spec[where name="''apple''" and delta="- 5" and c=apple_cart_fields
          and coerce=no_coercion and pre="[]" and cur=apple_item and post="[]" and q=1 and f=fmempty]
      h2 h3 h4 h5 e1 sf by simp
  have plus: "adjustQuantity no_coercion ''apple'' 2 (JObj apple_cart_fields)
       = JObj (fmap_of_list [(''items'',
           JArr [JObj (fmap_of_list [(''name'', JStr ''apple''), (''quantity'', JNum 3)])])])"
    using adjust_quantity_spec[where name="''apple''" and delta=2 and c=apple_cart_fields
          and coerce=no_coercion and pre="[]" and cur=apple_item and post="[]" and q=1 and f=fmempty]
      h2 h3 h4 h5 e2 sf by simp
  have p2: "cart_items (JObj pear_cart_fields) = [] @ JObj pear_item # []"
    by (simp add: pear_cart_fields_def cart_items_def)
  have p3: "has_name ''pear'' (JObj pear_item)"
    by (simp add: pear_item_def has_name_def)
  have p4: "fmlookup pear_item ''quantity'' = None"
    by (simp add: pear_item_def)
  have p5: "list_all (\<lambda>x. \<not> has_name ''pear'' x) []"
    by simp
  have e3: "fmupd ''items'' (JArr [JObj (fmupd ''quantity'' (JNum 2) pear_item)]) pear_cart_fields
          = fmap_of_list [(''items'',
              JArr [JObj (fmap_of_list [(''name'', JStr ''pear''), (''quantity'', JNum 2)])])]"
    by code_simp
  have pear: "adjustQuantity no_coercion ''pear'' 2 (JObj pear_cart_fields)
       = JObj (fmap_of_list [(''items'',
           JArr [JObj (fmap_of_list [(''name'', JStr ''pear''), (''quantity'', JNum 2)])])])"
    using adjust_quantity_spec[where name="''pear''" and delta=2 and c=pear_cart_fields
          and coerce=no_coercion and pre="[]" and cur=pear_item and post="[]" and q=0 and f=fmempty]
      p2 p3 p4 p5 e3 sf by simp
  have null: "adjustQuantity no_coercion ''apple'' 1 JNull = JObj fmempty"
    using adjust_quantity_spec[where name="''apple''" and delta=1 and c=apple_cart_fields
          and coerce=no_coercion and pre="[]" and cur=apple_item and post="[]" and q=1 and f=fmempty]
    by simp
  show ?thesis using h1 h2 h3 h4 sf banana minus plus p2 p3 p4 pear null by blast
qed

section \<open>Quantity 0 in the cart\<close>

lemma zero_quantity_copy: "zero_quantity (copy_item x) = zero_quantity x"
  by (simp add: zero_quantity_def copy_item_def spread_quantity)

lemma no_zero_copy: "no_zero (map copy_item xs) = no_zero xs"
  by (induction xs) (simp_all add: no_zero_def zero_quantity_copy)

lemma no_zero_append: "no_zero (xs @ ys) = (no_zero xs \<and> no_zero ys)"
  by (simp add: no_zero_def)

lemma zero_quantity_upd: "zero_quantity (JObj (fmupd ''quantity'' q cur)) = (q = JNum 0)"
  by (simp add: zero_quantity_def)

lemma adjust_no_zero:
  assumes "no_zero (cart_items C)"
  shows "no_zero (cart_items (adjustQuantity coerce name delta C))"
proof (cases "name = [] \<or> delta = 0")
  case True
  then show ?thesis using assms by (auto simp: adjustQuantity_def)
next
  case False
  show ?thesis
  proof (cases "findIndex (has_name name) (cart_items C)")
    case None
    then have "list_all (\<lambda>x. \<not> has_name name x) (cart_items C)"
      by (simp add: findIndex_None)
    then show ?thesis using assms False by (simp add: adjust_missing cart_items_base)
  next
    case (Some i)
    then obtain pre it post where s: "cart_items C = pre @ it # post"
        "list_all (\<lambda>x. \<not> has_name name x) pre" "has_name name it"
      using findIndex_Some[of "has_name name" "cart_items C" i] by blast
    have nz: "no_zero pre" "no_zero post"
      using assms s(1) by (simp_all add: no_zero_def)
    have n1: "name \<noteq> []" and n2: "delta \<noteq> 0" using False by simp_all
    let ?q = "nextQuantity coerce (spread it) delta"
    let ?new = "JObj (fmupd ''quantity'' ?q (spread it))"
    have items: "cart_items (adjustQuantity coerce name delta C)
        = (if ?q = JNum 0 then map copy_item pre @ map copy_item post
           else map copy_item pre @ ?new # map copy_item post)"
      by (simp add: adjust_found[OF n1 n2 s] cart_items_def)
    have cons: "no_zero (?new # map copy_item post) = (?q \<noteq> JNum 0 \<and> no_zero post)"
      using no_zero_copy[of post] by (simp add: no_zero_def zero_quantity_upd)
    show ?thesis
      using nz by (simp add: items no_zero_append no_zero_copy cons)
  qed
qed

lemma values_no_zero_set: "values_no_zero m \<Longrightarrow> \<not> zero_quantity v \<Longrightarrow> values_no_zero (map_set k v m)"
  by (induction m) (auto simp: values_no_zero_def)

lemma values_no_zero_lookup: "values_no_zero m \<Longrightarrow> map_get m n = Some v \<Longrightarrow> \<not> zero_quantity v"
  by (induction m) (auto simp: values_no_zero_def split: if_splits)

lemma seed_step_no_zero:
  "values_no_zero m \<Longrightarrow> \<not> zero_quantity x \<Longrightarrow> values_no_zero (seed_step x m)"
  by (simp add: seed_step_def values_no_zero_set split: option.splits)

lemma merged_no_zero:
  assumes "\<not> zero_quantity x" and "\<forall>v. old = Some v \<longrightarrow> \<not> zero_quantity v"
  shows "\<not> zero_quantity (JObj (fmadd (spread_opt old) (spread x)))"
proof -
  have x: "fmlookup (spread x) ''quantity'' \<noteq> Some (JNum 0)"
    using assms(1) by (simp add: zero_quantity_def spread_quantity)
  have o: "fmlookup (spread_opt old) ''quantity'' \<noteq> Some (JNum 0)"
  proof (cases old)
    case None
    then show ?thesis by simp
  next
    case (Some v)
    then show ?thesis using assms(2) by (simp add: zero_quantity_def spread_quantity)
  qed
  show ?thesis using x o by (simp add: zero_quantity_def fmadd_lookup_case split: option.splits)
qed

lemma merge_step_no_zero:
  assumes "values_no_zero m" and "name_key x \<noteq> None \<longrightarrow> \<not> zero_quantity x"
  shows "values_no_zero (merge_step x m)"
proof (cases "name_key x")
  case None
  then show ?thesis using assms(1) by (simp add: merge_step_def)
next
  case (Some n)
  then have nz: "\<not> zero_quantity x" using assms(2) by simp
  have "\<forall>v. map_get m n = Some v \<longrightarrow> \<not> zero_quantity v"
    using values_no_zero_lookup[OF assms(1)] by blast
  then have "\<not> zero_quantity (JObj (fmadd (spread_opt (map_get m n)) (spread x)))"
    using merged_no_zero[OF nz] by blast
  then show ?thesis using Some assms(1) by (simp add: merge_step_def values_no_zero_set)
qed

lemma fold_seed_no_zero:
  "values_no_zero m \<Longrightarrow> no_zero xs \<Longrightarrow> values_no_zero (fold seed_step xs m)"
  by (induction xs arbitrary: m) (simp_all add: no_zero_def seed_step_no_zero)

lemma fold_merge_no_zero:
  "values_no_zero m \<Longrightarrow> list_all (\<lambda>x. name_key x \<noteq> None \<longrightarrow> \<not> zero_quantity x) D \<Longrightarrow>
   values_no_zero (fold merge_step D m)"
  by (induction D arbitrary: m) (simp_all add: merge_step_no_zero)

lemma reconcile_no_zero:
  assumes "no_zero (cart_items B)"
    and "list_all (\<lambda>x. name_key x \<noteq> None \<longrightarrow> \<not> zero_quantity x) D"
  shows "no_zero (cart_items (reconcile B D))"
proof -
  have "values_no_zero []" by (simp add: values_no_zero_def)
  then have "values_no_zero (fold seed_step (cart_items B) [])"
    using assms(1) by (rule fold_seed_no_zero)
  then have "values_no_zero (fold merge_step D (fold seed_step (cart_items B) []))"
    using assms(2) by (rule fold_merge_no_zero)
  then show ?thesis
    by (simp add: cart_items_reconcile no_zero_def values_no_zero_def list_all_iff)
qed

text \<open>
  C5 (no zero quantity at rest), as amended. From a cart without an item of quantity 0,
  \<^verbatim>\<open>adjustQuantity\<close> with any name and delta gives a cart without one; the merge gives
  a cart without one provided that no incoming item with a non-empty name has quantity
  0 (the merge stores incoming quantities as they come).
\<close>

theorem no_zero_quantity_at_rest:
  "(no_zero (cart_items C) \<longrightarrow> no_zero (cart_items (adjustQuantity coerce name delta C)))
   \<and> (no_zero (cart_items B) \<and> list_all (\<lambda>x. name_key x \<noteq> None \<longrightarrow> \<not> zero_quantity x) D \<longrightarrow>
        no_zero (cart_items (reconcile B D)))"
  using adjust_no_zero[of C coerce name delta] reconcile_no_zero[of B D] by blast

theorem no_zero_quantity_at_rest_witness:
  "no_zero (cart_items (JObj apple_cart_fields))
   \<and> no_zero (cart_items (adjustQuantity no_coercion ''apple'' (- 1) (JObj apple_cart_fields)))
   \<and> no_zero (cart_items milk_cart)
   \<and> list_all (\<lambda>x. name_key x \<noteq> None \<longrightarrow> \<not> zero_quantity x) milk_bread_delta
   \<and> no_zero (cart_items (reconcile milk_cart milk_bread_delta))"
proof -
  have h1: "no_zero (cart_items (JObj apple_cart_fields))"
    by (simp add: apple_cart_fields_def apple_item_def cart_items_def no_zero_def zero_quantity_def)
  have h2: "no_zero (cart_items milk_cart)"
    by (simp add: milk_cart_def cart_items_def no_zero_def zero_quantity_def)
  have h3: "list_all (\<lambda>x. name_key x \<noteq> None \<longrightarrow> \<not> zero_quantity x) milk_bread_delta"
    by (simp add: milk_bread_delta_def zero_quantity_def)
  show ?thesis
    using no_zero_quantity_at_rest[of "JObj apple_cart_fields" no_coercion "''apple''" "- 1"
        milk_cart milk_bread_delta] h1 h2 h3
    by simp
qed

text \<open>
  C5 as stated fails for the merge: an incoming item of quantity 0 is stored in a cart
  that had none.
\<close>

theorem zero_quantity_stored_counterexample:
  "no_zero (cart_items createDefaultCartState)
   \<and> \<not> no_zero (cart_items (reconcile createDefaultCartState [zero_x]))"
  by code_simp

section \<open>The change-detection guard\<close>



end
